theory Spec2Isabelle
  imports Complex_Main "HOL-Library.Product_Lexorder" "HOL-Library.Multiset"
begin

section \<open>The market maker of \<open>hft_mm_bot.py\<close>\<close>

text \<open>
  Python floats are modelled as exact reals: prices, quantities, mid-prices and spreads
  are of type \<open>real\<close>, so rounding, infinities and NaN are outside the model. The JSON
  payloads are taken as already parsed: a price level is a pair of reals (the source
  calls \<open>float\<close> on the two strings of each level), the update identifiers are
  Python's unbounded integers.
\<close>

subsection \<open>Configuration\<close>

definition INITIAL_SPREAD :: real where
  "INITIAL_SPREAD = 2 / 1000"

definition MIN_SPREAD :: real where
  "MIN_SPREAD = 1 / 1000"

definition MAX_SPREAD :: real where
  "MAX_SPREAD = 1 / 100"

subsection \<open>Data\<close>

text \<open>A level is the two-element list \<open>[price, qty]\<close> of the source.\<close>

type_synonym level = "real \<times> real"

record market_maker =
  spread :: real
  mid_prices :: "real list"
  bids :: "level list"
  asks :: "level list"
  last_update_id :: "int option"
  first_processed :: bool

text \<open>The REST snapshot: \<open>data['bids']\<close>, \<open>data['asks']\<close>, \<open>data['lastUpdateId']\<close>.\<close>

record snapshot =
  snap_bids :: "level list"
  snap_asks :: "level list"
  snap_lastUpdateId :: int

text \<open>A depth update: \<open>data['U']\<close>, \<open>data['u']\<close>, \<open>data['b']\<close>, \<open>data['a']\<close>.\<close>

record update =
  upd_U :: int
  upd_u :: int
  upd_b :: "level list"
  upd_a :: "level list"

text \<open>
  The exceptions the modelled code can raise on well-typed input: the \<open>ValueError\<close> of
  a sequence gap, whose message carries \<open>last_update_id\<close> and \<open>U\<close>, and the
  \<open>TypeError\<close> of \<open>None + 1\<close> when no snapshot has set \<open>last_update_id\<close>.
\<close>

datatype error = ValueError int int | TypeError

text \<open>
  A call that may raise returns either the exception together with the object as the
  raise leaves it (the Python object outlives the exception), or the updated object.
\<close>

type_synonym 'a result = "(error \<times> market_maker) + 'a"

subsection \<open>\<open>MarketMaker.__init__\<close> and \<open>update_spread\<close>\<close>

definition init :: market_maker where
  "init = \<lparr>spread = INITIAL_SPREAD, mid_prices = [], bids = [], asks = [],
           last_update_id = None, first_processed = False\<rparr>"

definition update_spread :: "real \<Rightarrow> market_maker \<Rightarrow> market_maker" where
  "update_spread volatility mm =
     mm\<lparr>spread := max MIN_SPREAD (min MAX_SPREAD (3 / 1000 * volatility))\<rparr>"

text \<open>The clamp of the specification's \<open>spreadFor\<close>, written from its words.\<close>

definition spec_clamp :: "real \<Rightarrow> real \<Rightarrow> real \<Rightarrow> real" where
  "spec_clamp x lo hi = (if x < lo then lo else if hi < x then hi else x)"

subsection \<open>\<open>process_snapshot\<close>\<close>

text \<open>
  Python compares the two-element lists lexicographically, which is the order of
  \<open>Product_Lexorder\<close> on pairs. \<open>sorted(..., reverse=True)\<close> yields the descending
  list; elements that compare equal are equal pairs, so it is the reversed ascending
  list.
\<close>

definition sort_desc :: "level list \<Rightarrow> level list" where
  "sort_desc xs = rev (sort xs)"

definition process_snapshot :: "snapshot \<Rightarrow> market_maker \<Rightarrow> market_maker result" where
  "process_snapshot data mm =
     Inr (mm\<lparr>bids := sort_desc (snap_bids data),
             asks := sort (snap_asks data),
             last_update_id := Some (snap_lastUpdateId data)\<rparr>)"

subsection \<open>\<open>apply_changes\<close>\<close>

text \<open>\<open>existing[1] = qty\<close> on the first level whose price is \<open>price\<close>.\<close>

fun set_existing :: "real \<Rightarrow> real \<Rightarrow> level list \<Rightarrow> level list" where
  "set_existing price qty [] = []"
| "set_existing price qty (x # xs) =
     (if fst x = price then (fst x, qty) # xs else x # set_existing price qty xs)"

text \<open>One iteration of the loop over \<open>data['b']\<close> (or \<open>data['a']\<close>).\<close>

definition apply_level :: "level \<Rightarrow> level list \<Rightarrow> level list" where
  "apply_level c side =
     (let price = fst c; qty = snd c in
      if qty = 0 then filter (\<lambda>x. fst x \<noteq> price) side
      else (case find (\<lambda>x. fst x = price) side of
              Some existing \<Rightarrow> set_existing price qty side
            | None \<Rightarrow> side @ [(price, qty)]))"

definition apply_changes :: "update \<Rightarrow> market_maker \<Rightarrow> market_maker" where
  "apply_changes data mm =
     mm\<lparr>bids := sort_desc (fold apply_level (upd_b data) (bids mm)),
        asks := sort (fold apply_level (upd_a data) (asks mm))\<rparr>"

subsection \<open>\<open>process_update\<close>\<close>

definition process_update :: "update \<Rightarrow> market_maker \<Rightarrow> market_maker result" where
  "process_update data mm =
     (case last_update_id mm of
        None \<Rightarrow> Inl (TypeError, mm)
      | Some l \<Rightarrow>
          if \<not> first_processed mm then
            (if upd_U data \<le> l + 1 \<and> upd_u data \<ge> l + 1
             then Inr (apply_changes data
                         (mm\<lparr>last_update_id := Some (upd_u data), first_processed := True\<rparr>))
             else Inr mm)
          else if upd_U data \<le> l + 1 then
            (if upd_u data \<ge> l + 1
             then Inr ((apply_changes data mm)\<lparr>last_update_id := Some (upd_u data)\<rparr>)
             else Inr mm)
          else Inl (ValueError l (upd_U data), mm))"

text \<open>
  A run of updates on one object: the first exception ends it, as it does when
  \<open>process_update\<close> is called in sequence.
\<close>

fun process_updates :: "update list \<Rightarrow> market_maker \<Rightarrow> market_maker result" where
  "process_updates [] mm = Inr mm"
| "process_updates (d # ds) mm =
     (case process_update d mm of
        Inl e \<Rightarrow> Inl e
      | Inr mm' \<Rightarrow> process_updates ds mm')"

text \<open>
  The hypothesis of a run without gaps, from the specification's words: every update is
  in order at its step, \<open>U \<le> last_update_id + 1 \<le> u\<close>, where \<open>last_update_id\<close>
  is the \<open>u\<close> of the update before it.
\<close>

fun in_order :: "update list \<Rightarrow> int \<Rightarrow> bool" where
  "in_order [] l = True"
| "in_order (d # ds) l = (upd_U d \<le> l + 1 \<and> l + 1 \<le> upd_u d \<and> in_order ds (upd_u d))"

text \<open>
  Applying one change to a side, from the specification's words, with the side as the
  mapping from price to quantity it is specified to be: a change of quantity 0 removes
  the price, any other change sets the quantity at the price (replacing it when the
  price is present, adding it otherwise).
\<close>

definition spec_change :: "level \<Rightarrow> (real \<rightharpoonup> real) \<Rightarrow> (real \<rightharpoonup> real)" where
  "spec_change c m = (if snd c = 0 then m(fst c := None) else m(fst c \<mapsto> snd c))"

subsection \<open>The volatility of \<open>handle_messages\<close>\<close>

text \<open>
  The source calls \<open>scipy.ndimage.uniform_filter1d\<close> (default boundary mode
  \<open>reflect\<close>, origin 0), \<open>numpy.diff\<close> and \<open>numpy.std\<close> (population standard
  deviation). They are library functions; the definitions below follow their documented
  behaviour over exact reals. Where numpy divides by zero and yields \<open>inf\<close> or \<open>nan\<close>
  the model has HOL's \<open>x / 0 = 0\<close>; no statement below depends on that value.
\<close>

definition reflect_index :: "nat \<Rightarrow> int \<Rightarrow> nat" where
  "reflect_index n j =
     (let r = nat (j mod (2 * int n)) in if r < n then r else 2 * n - 1 - r)"

definition uniform_filter1d :: "real list \<Rightarrow> nat \<Rightarrow> real list" where
  "uniform_filter1d xs sz =
     map (\<lambda>i. sum_list (map (\<lambda>k. xs ! reflect_index (length xs)
                                        (int i - int (sz div 2) + int k)) [0..<sz])
               / real sz)
         [0..<length xs]"

definition np_diff :: "real list \<Rightarrow> real list" where
  "np_diff xs = map (\<lambda>(x, y). y - x) (zip xs (tl xs))"

definition np_mean :: "real list \<Rightarrow> real" where
  "np_mean xs = sum_list xs / real (length xs)"

definition np_std :: "real list \<Rightarrow> real" where
  "np_std xs = sqrt (np_mean (map (\<lambda>x. (x - np_mean xs)\<^sup>2) xs))"

text \<open>
  \<open>prices = uniform_filter1d(np.array(mm.mid_prices[-20:]), size=5)\<close>,
  \<open>returns = np.diff(prices) / prices[:-1]\<close>, \<open>vol = np.std(returns)\<close>.
\<close>

definition window_volatility :: "real list \<Rightarrow> real" where
  "window_volatility mids =
     (let prices = uniform_filter1d (drop (length mids - 20) mids) 5;
          returns = map (\<lambda>(d, p). d / p) (zip (np_diff prices) (butlast prices))
      in np_std returns)"

subsection \<open>\<open>handle_messages\<close>\<close>

text \<open>The quote prices, \<open>our_bid\<close> and \<open>our_ask\<close> of the source.\<close>

definition quote_bid :: "real \<Rightarrow> real \<Rightarrow> real" where
  "quote_bid mid s = mid * (1 - s / 2)"

definition quote_ask :: "real \<Rightarrow> real \<Rightarrow> real" where
  "quote_ask mid s = mid * (1 + s / 2)"

text \<open>The values of one logged quote line, before formatting.\<close>

record quote_log =
  log_our_bid :: real
  log_our_ask :: real
  log_spread_percent :: real
  log_best_bid :: real
  log_best_ask :: real

text \<open>
  A message of the stream: text that is not JSON, JSON that is not a
  \<open>depthUpdate\<close> event, or a depth update.
\<close>

datatype message = InvalidJSON | OtherPayload | DepthUpdate update

text \<open>
  The body of the \<open>try\<close> for a depth update. A \<open>ValueError\<close> is re-raised; any
  other exception is logged and the loop goes on with the object as it is.
\<close>

definition on_depth_update ::
  "update \<Rightarrow> market_maker \<Rightarrow> (market_maker \<times> quote_log option) result" where
  "on_depth_update data mm =
     (case process_update data mm of
        Inl (ValueError x y, m) \<Rightarrow> Inl (ValueError x y, m)
      | Inl (TypeError, m) \<Rightarrow> Inr (m, None)
      | Inr m \<Rightarrow>
          (case (bids m, asks m, first_processed m) of
             (bb # _, ba # _, True) \<Rightarrow>
               (let best_bid = fst bb; best_ask = fst ba;
                    mid = (best_bid + best_ask) / 2;
                    m1 = m\<lparr>mid_prices := mid_prices m @ [mid]\<rparr>
                in if length (mid_prices m1) > 20 then
                     (let vol = window_volatility (mid_prices m1);
                          m2 = update_spread vol m1
                      in Inr (m2, Some \<lparr>log_our_bid = quote_bid mid (spread m2),
                                        log_our_ask = quote_ask mid (spread m2),
                                        log_spread_percent = spread m2 * 100,
                                        log_best_bid = best_bid,
                                        log_best_ask = best_ask\<rparr>))
                   else Inr (m1, None))
           | _ \<Rightarrow> Inr (m, None)))"

definition handle_message ::
  "message \<Rightarrow> market_maker \<Rightarrow> (market_maker \<times> quote_log option) result" where
  "handle_message msg mm =
     (case msg of
        InvalidJSON \<Rightarrow> Inr (mm, None)
      | OtherPayload \<Rightarrow> Inr (mm, None)
      | DepthUpdate data \<Rightarrow> on_depth_update data mm)"

text \<open>
  The loop over a finite prefix of the stream: the exception that ended it (if any),
  the object, and the quotes logged, in order.
\<close>

fun handle_messages ::
  "message list \<Rightarrow> market_maker \<Rightarrow> error option \<times> market_maker \<times> quote_log list" where
  "handle_messages [] mm = (None, mm, [])"
| "handle_messages (msg # msgs) mm =
     (case handle_message msg mm of
        Inl (e, mm') \<Rightarrow> (Some e, mm', [])
      | Inr (mm', q) \<Rightarrow>
          (case handle_messages msgs mm' of
             (e, mm'', qs) \<Rightarrow> (e, mm'', (case q of None \<Rightarrow> [] | Some x \<Rightarrow> [x]) @ qs)))"

section \<open>The spread\<close>

text \<open>
  Claim C8. For every volatility \<open>v\<close> (non-negative or not) the spread that
  \<open>update_spread\<close> stores is \<open>clamp(0.003 \<times> v, 0.001, 0.01)\<close>; it lies in the
  closed interval from 0.001 to 0.01, and it is non-decreasing in \<open>v\<close>.
\<close>

theorem update_spread_clamp:
  "spread (update_spread v mm) = spec_clamp (0.003 * v) 0.001 0.01
   \<and> 0.001 \<le> spread (update_spread v mm)
   \<and> spread (update_spread v mm) \<le> 0.01
   \<and> (v \<le> w \<longrightarrow> spread (update_spread v mm) \<le> spread (update_spread w mm'))"
  by (auto simp add: update_spread_def spec_clamp_def MIN_SPREAD_def MAX_SPREAD_def
        max_def min_def)

theorem update_spread_clamp_witness:
  "spread (update_spread 2 init) = spec_clamp (0.003 * 2) 0.001 0.01
   \<and> 0.001 \<le> spread (update_spread 2 init)
   \<and> spread (update_spread 2 init) \<le> 0.01
   \<and> (2::real) \<le> 5
   \<and> spread (update_spread 2 init) \<le> spread (update_spread 5 init)"
  using update_spread_clamp [of 2 init 5 init] by simp

section \<open>Synchronisation\<close>

lemma process_update_keeps_series:
  "process_update d mm = Inr m \<Longrightarrow> mid_prices m = mid_prices mm \<and> spread m = spread mm"
  by (auto simp add: process_update_def apply_changes_def split: option.splits if_splits)

lemma process_update_raise_state:
  "process_update d mm = Inl (e, m) \<Longrightarrow> m = mm"
  by (auto simp add: process_update_def split: option.splits if_splits)

text \<open>
  Claim C1. In the synced state (\<open>first_processed\<close> set, \<open>last_update_id = l\<close>) an
  update with \<open>U > l + 1\<close> raises the \<open>ValueError\<close> that carries \<open>l\<close> and \<open>U\<close>, and
  the object is left exactly as it was: bids, asks, \<open>last_update_id\<close> and
  \<open>first_processed\<close> are untouched. The message loop re-raises it.
\<close>

theorem process_update_gap:
  assumes "first_processed mm" and "last_update_id mm = Some l" and "upd_U d > l + 1"
  shows "process_update d mm = Inl (ValueError l (upd_U d), mm)
         \<and> on_depth_update d mm = Inl (ValueError l (upd_U d), mm)"
  using assms by (simp add: process_update_def on_depth_update_def)

theorem process_update_gap_witness:
  "process_update \<lparr>upd_U = 1003, upd_u = 1005, upd_b = [(99, 2)], upd_a = []\<rparr>
     \<lparr>spread = INITIAL_SPREAD, mid_prices = [], bids = [(100, 1)], asks = [(101, 1)],
      last_update_id = Some 1001, first_processed = True\<rparr>
   = Inl (ValueError 1001 1003,
     \<lparr>spread = INITIAL_SPREAD, mid_prices = [], bids = [(100, 1)], asks = [(101, 1)],
      last_update_id = Some 1001, first_processed = True\<rparr>)"
  using process_update_gap
    [of "\<lparr>spread = INITIAL_SPREAD, mid_prices = [], bids = [(100, 1)], asks = [(101, 1)],
          last_update_id = Some 1001, first_processed = True\<rparr>"
        1001
        "\<lparr>upd_U = 1003, upd_u = 1005, upd_b = [(99, 2)], upd_a = []\<rparr>"]
  by simp

text \<open>
  Claim C7, as the code has it. \<open>process_snapshot\<close> checks no state: from every state
  it returns normally, replaces both sides by the sorted levels of the snapshot and sets
  \<open>last_update_id\<close>; \<open>first_processed\<close>, the spread and the mid-price series stay as
  they were. There is no invalid-state error.
\<close>

theorem process_snapshot_any_state:
  "\<exists>mm'. process_snapshot data mm = Inr mm'
      \<and> bids mm' = sort_desc (snap_bids data)
      \<and> asks mm' = sort (snap_asks data)
      \<and> last_update_id mm' = Some (snap_lastUpdateId data)
      \<and> first_processed mm' = first_processed mm
      \<and> spread mm' = spread mm
      \<and> mid_prices mm' = mid_prices mm"
  by (simp add: process_snapshot_def)

text \<open>
  A snapshot applied to a synced book is accepted: the result is a normal return, the
  book is replaced and stays synced.
\<close>

theorem process_snapshot_counterexample:
  "process_snapshot \<lparr>snap_bids = [(98, 3)], snap_asks = [(99, 4)], snap_lastUpdateId = 2000\<rparr>
     \<lparr>spread = INITIAL_SPREAD, mid_prices = [], bids = [(100, 1)], asks = [(101, 1)],
      last_update_id = Some 1001, first_processed = True\<rparr>
   = Inr \<lparr>spread = INITIAL_SPREAD, mid_prices = [], bids = [(98, 3)], asks = [(99, 4)],
      last_update_id = Some 2000, first_processed = True\<rparr>"
  by (simp add: process_snapshot_def sort_desc_def)

section \<open>Quotes\<close>

text \<open>
  Claim C9, amended. The quoted prices are \<open>mid \<times> (1 - spread/2)\<close> and
  \<open>mid \<times> (1 + spread/2)\<close>, their difference is \<open>mid \<times> spread\<close>, and for a positive
  spread and a positive mid-price the bid is below and the ask above the mid-price.
\<close>

theorem quote_prices:
  "quote_bid mid s = mid * (1 - s / 2)
   \<and> quote_ask mid s = mid * (1 + s / 2)
   \<and> quote_ask mid s - quote_bid mid s = mid * s
   \<and> (0 < s \<and> 0 < mid \<longrightarrow> quote_bid mid s < mid \<and> mid < quote_ask mid s)"
  by (simp add: quote_ask_def quote_bid_def algebra_simps)

theorem quote_prices_witness:
  "(0::real) < 2 / 1000 \<and> (0::real) < 100
   \<and> quote_bid 100 (2 / 1000) < 100 \<and> 100 < quote_ask 100 (2 / 1000)
   \<and> quote_ask 100 (2 / 1000) - quote_bid 100 (2 / 1000) = 100 * (2 / 1000)"
  using quote_prices [of 100 "2 / 1000"] by simp

text \<open>At the mid-price 0 the bid is not below the mid-price, whatever the spread.\<close>

theorem quote_prices_counterexample:
  "\<not> (quote_bid 0 (2 / 1000) < 0 \<and> 0 < quote_ask 0 (2 / 1000))"
  by (simp add: quote_ask_def quote_bid_def)

section \<open>The message loop\<close>

subsection \<open>A window of equal mid-prices\<close>

text \<open>
  Twenty-one equal mid-prices: the smoothed prices are equal, every return is 0, the
  volatility is 0 and the spread is \<open>MIN_SPREAD\<close>.
\<close>

lemma returns_const:
  "(let prices = uniform_filter1d (drop (length (replicate 20 (201 / 2 :: real) @ [201 / 2]) - 20) (replicate 20 (201 / 2) @ [201 / 2])) 5
    in map (\<lambda>(d, p). d / p) (zip (np_diff prices) (butlast prices))) = replicate 19 0"
  by code_simp

lemma np_std_zero: "np_std (replicate n 0) = 0"
  by (simp add: np_std_def np_mean_def sum_list_replicate)

lemma window_volatility_const:
  "window_volatility (replicate 20 (201 / 2) @ [201 / 2]) = 0"
  unfolding window_volatility_def using returns_const np_std_zero [of 19] by (simp add: Let_def)


lemma quote_example:
  "on_depth_update \<lparr>upd_U = 990, upd_u = 999, upd_b = [], upd_a = []\<rparr>
     \<lparr>spread = INITIAL_SPREAD, mid_prices = replicate 20 (201 / 2), bids = [(100, 1)],
      asks = [(101, 1)], last_update_id = Some 1001, first_processed = True\<rparr>
   = Inr (\<lparr>spread = 1 / 1000, mid_prices = replicate 20 (201 / 2) @ [201 / 2],
      bids = [(100, 1)], asks = [(101, 1)],
      last_update_id = Some 1001, first_processed = True\<rparr>,
      Some \<lparr>log_our_bid = 201 / 2 * (1 - 1 / 2000), log_our_ask = 201 / 2 * (1 + 1 / 2000),
            log_spread_percent = 1 / 10, log_best_bid = 100, log_best_ask = 101\<rparr>)"
  by (simp add: on_depth_update_def process_update_def window_volatility_const update_spread_def
       MIN_SPREAD_def MAX_SPREAD_def quote_bid_def quote_ask_def Let_def)

subsection \<open>The stored spread does not reach a quote\<close>

lemma process_update_spread_irrelevant:
  "process_update d (mm\<lparr>spread := s\<rparr>) =
     (case process_update d mm of
        Inl (e, m) \<Rightarrow> Inl (e, m\<lparr>spread := s\<rparr>)
      | Inr m \<Rightarrow> Inr (m\<lparr>spread := s\<rparr>))"
  by (simp add: process_update_def apply_changes_def split: option.splits)

lemma on_depth_update_spread_irrelevant:
  "on_depth_update d (mm\<lparr>spread := s\<rparr>) =
     (case on_depth_update d mm of
        Inl (e, m) \<Rightarrow> Inl (e, m\<lparr>spread := s\<rparr>)
      | Inr (m, None) \<Rightarrow> Inr (m\<lparr>spread := s\<rparr>, None)
      | Inr (m, Some q) \<Rightarrow> Inr (m, Some q))"
  by (simp add: on_depth_update_def process_update_spread_irrelevant Let_def update_spread_def
        split: sum.splits prod.splits error.splits list.splits bool.splits)

lemma handle_message_spread_irrelevant:
  "handle_message msg (mm\<lparr>spread := s\<rparr>) =
     (case handle_message msg mm of
        Inl (e, m) \<Rightarrow> Inl (e, m\<lparr>spread := s\<rparr>)
      | Inr (m, None) \<Rightarrow> Inr (m\<lparr>spread := s\<rparr>, None)
      | Inr (m, Some q) \<Rightarrow> Inr (m, Some q))"
  by (cases msg) (simp_all add: handle_message_def on_depth_update_spread_irrelevant)

lemma handle_messages_spread_irrelevant:
  "snd (snd (handle_messages msgs (mm\<lparr>spread := s\<rparr>))) = snd (snd (handle_messages msgs mm))"
proof (induction msgs arbitrary: mm)
  case Nil
  show ?case by simp
next
  case (Cons msg msgs)
  show ?case
  proof (cases "handle_message msg mm")
    case (Inl p)
    then show ?thesis
      by (cases p) (simp add: handle_message_spread_irrelevant)
  next
    case (Inr p)
    obtain m q where p: "p = (m, q)" by (cases p)
    show ?thesis
    proof (cases q)
      case None
      with Inr p Cons.IH [of m] show ?thesis
        by (simp add: handle_message_spread_irrelevant split: prod.splits)
    next
      case (Some x)
      with Inr p show ?thesis
        by (simp add: handle_message_spread_irrelevant split: prod.splits)
    qed
  qed
qed

lemma on_depth_update_quote:
  assumes "on_depth_update d mm = Inr (mm', Some q)"
  shows "spread mm' = max MIN_SPREAD (min MAX_SPREAD (3 / 1000 * window_volatility (mid_prices mm')))
       \<and> log_spread_percent q = spread mm' * 100
       \<and> log_our_bid q = quote_bid ((log_best_bid q + log_best_ask q) / 2) (spread mm')
       \<and> log_our_ask q = quote_ask ((log_best_bid q + log_best_ask q) / 2) (spread mm')"
  using assms
  by (auto simp add: on_depth_update_def Let_def update_spread_def
        split: sum.splits prod.splits error.splits list.splits bool.splits if_splits)


lemma clamp_spec: "max MIN_SPREAD (min MAX_SPREAD x) = spec_clamp x (1 / 1000) (1 / 100)"
  by (simp add: spec_clamp_def MIN_SPREAD_def MAX_SPREAD_def max_def min_def)

lemma clamp_range: "1 / 1000 \<le> max MIN_SPREAD (min MAX_SPREAD x) \<and> max MIN_SPREAD (min MAX_SPREAD x) \<le> 1 / 100"
  by (simp add: MIN_SPREAD_def MAX_SPREAD_def)

lemma handle_message_quote:
  assumes "handle_message msg mm = Inr (mm', Some q)"
  shows "\<exists>d. msg = DepthUpdate d \<and> on_depth_update d mm = Inr (mm', Some q)"
  using assms by (cases msg) (simp_all add: handle_message_def)

lemma handle_messages_quotes_range:
  "q \<in> set (snd (snd (handle_messages msgs mm))) \<Longrightarrow>
     1 / 10 \<le> log_spread_percent q \<and> log_spread_percent q \<le> 1"
proof (induction msgs arbitrary: mm)
  case Nil
  then show ?case by simp
next
  case (Cons msg msgs)
  show ?case
  proof (cases "handle_message msg mm")
    case (Inl p)
    with Cons.prems show ?thesis by (cases p) simp
  next
    case (Inr p)
    obtain m q0 where p: "p = (m, q0)" by (cases p)
    from Cons.prems Inr p
    have mem: "q \<in> set (case q0 of None \<Rightarrow> [] | Some x \<Rightarrow> [x]) \<or> q \<in> set (snd (snd (handle_messages msgs m)))"
      by (auto split: prod.splits)
    show ?thesis
    proof (cases "q \<in> set (snd (snd (handle_messages msgs m)))")
      case True
      then show ?thesis by (rule Cons.IH)
    next
      case False
      with mem have q0: "q0 = Some q" by (cases q0) simp_all
      with Inr p obtain d where "on_depth_update d mm = Inr (m, Some q)"
        using handle_message_quote by blast
      then have "spread m = max MIN_SPREAD (min MAX_SPREAD (3 / 1000 * window_volatility (mid_prices m)))"
        and "log_spread_percent q = spread m * 100"
        using on_depth_update_quote by blast+
      then show ?thesis using clamp_range [of "3 / 1000 * window_volatility (mid_prices m)"] by simp
    qed
  qed
qed

subsection \<open>The mid-price series\<close>

text \<open>
  Claim C5, as the code has it. After a depth update that \<open>process_update\<close> handles
  without raising, exactly one mid-price, (best bid + best ask) / 2 of the book as the
  call left it, is appended whenever both sides are non-empty and the first update has
  been processed; nothing is appended when a side is empty, when the first update is
  still awaited, or when \<open>process_update\<close> raises. The loop does not ask whether the
  update was applied: an update that is ignored as stale in the synced state returns
  normally with the book unchanged, so it appends the mid-price of that book again.
\<close>

theorem mid_price_series:
  "(process_update d mm = Inr m \<and> bids m = bb # bs \<and> asks m = ba # as \<and> first_processed m \<longrightarrow>
      (\<exists>mm' q. on_depth_update d mm = Inr (mm', q)
          \<and> mid_prices mm' = mid_prices mm @ [(fst bb + fst ba) / 2]))
   \<and> (process_update d mm = Inr m \<and> (bids m = [] \<or> asks m = [] \<or> \<not> first_processed m) \<longrightarrow>
        on_depth_update d mm = Inr (m, None) \<and> mid_prices m = mid_prices mm)
   \<and> (process_update d mm = Inl (e, m) \<longrightarrow>
        mid_prices m = mid_prices mm
        \<and> (on_depth_update d mm = Inl (e, m) \<or> on_depth_update d mm = Inr (m, None)))
   \<and> (first_processed mm \<and> last_update_id mm = Some l \<and> upd_U d \<le> l + 1 \<and> upd_u d < l + 1 \<longrightarrow>
        process_update d mm = Inr mm)"
proof (intro conjI impI)
  assume a: "process_update d mm = Inr m \<and> bids m = bb # bs \<and> asks m = ba # as \<and> first_processed m"
  then have "mid_prices m = mid_prices mm" using process_update_keeps_series by blast
  with a show "\<exists>mm' q. on_depth_update d mm = Inr (mm', q)
          \<and> mid_prices mm' = mid_prices mm @ [(fst bb + fst ba) / 2]"
    by (simp add: on_depth_update_def Let_def update_spread_def)
next
  assume a: "process_update d mm = Inr m \<and> (bids m = [] \<or> asks m = [] \<or> \<not> first_processed m)"
  then have "mid_prices m = mid_prices mm" using process_update_keeps_series by blast
  with a show "on_depth_update d mm = Inr (m, None)" "mid_prices m = mid_prices mm"
    by (auto simp add: on_depth_update_def split: list.splits bool.splits)
next
  assume a: "process_update d mm = Inl (e, m)"
  then show "mid_prices m = mid_prices mm" using process_update_raise_state by blast
  from a show "on_depth_update d mm = Inl (e, m) \<or> on_depth_update d mm = Inr (m, None)"
    by (cases e) (simp_all add: on_depth_update_def)
next
  assume "first_processed mm \<and> last_update_id mm = Some l \<and> upd_U d \<le> l + 1 \<and> upd_u d < l + 1"
  then show "process_update d mm = Inr mm" by (simp add: process_update_def)
qed

theorem mid_price_series_witness:
  "process_update \<lparr>upd_U = 990, upd_u = 999, upd_b = [(99, 2)], upd_a = []\<rparr>
     \<lparr>spread = INITIAL_SPREAD, mid_prices = [], bids = [(100, 1)], asks = [(101, 1)],
      last_update_id = Some 1001, first_processed = True\<rparr>
   = Inr \<lparr>spread = INITIAL_SPREAD, mid_prices = [], bids = [(100, 1)], asks = [(101, 1)],
      last_update_id = Some 1001, first_processed = True\<rparr>
   \<and> (\<exists>mm' q. on_depth_update \<lparr>upd_U = 990, upd_u = 999, upd_b = [(99, 2)], upd_a = []\<rparr>
     \<lparr>spread = INITIAL_SPREAD, mid_prices = [], bids = [(100, 1)], asks = [(101, 1)],
      last_update_id = Some 1001, first_processed = True\<rparr> = Inr (mm', q)
      \<and> mid_prices mm' = [(100 + 101) / 2])"
  using mid_price_series
    [where d = "\<lparr>upd_U = 990, upd_u = 999, upd_b = [(99, 2)], upd_a = []\<rparr>"
       and mm = "\<lparr>spread = INITIAL_SPREAD, mid_prices = [], bids = [(100, 1)], asks = [(101, 1)],
                  last_update_id = Some 1001, first_processed = True\<rparr>"
       and m = "\<lparr>spread = INITIAL_SPREAD, mid_prices = [], bids = [(100, 1)], asks = [(101, 1)],
                  last_update_id = Some 1001, first_processed = True\<rparr>"
       and bb = "(100, 1)" and bs = "[]" and ba = "(101, 1)" and as = "[]"
       and e = TypeError and l = 1001]
  by simp

text \<open>
  A stale update (\<open>u = 999\<close> behind \<open>last_update_id = 1001\<close>) on a synced book with
  both sides non-empty: the book is unchanged and the series grows by the mid-price.
\<close>

theorem mid_price_series_counterexample:
  "on_depth_update \<lparr>upd_U = 990, upd_u = 999, upd_b = [(99, 2)], upd_a = []\<rparr>
     \<lparr>spread = INITIAL_SPREAD, mid_prices = [], bids = [(100, 1)], asks = [(101, 1)],
      last_update_id = Some 1001, first_processed = True\<rparr>
   = Inr (\<lparr>spread = INITIAL_SPREAD, mid_prices = [201 / 2], bids = [(100, 1)], asks = [(101, 1)],
      last_update_id = Some 1001, first_processed = True\<rparr>, None)"
  by (simp add: on_depth_update_def process_update_def)

subsection \<open>When the volatility is computed\<close>

text \<open>
  Claim C6, as the code has it. The guard is \<open>len(mm.mid_prices) > 20\<close>: a quote is
  produced, and the spread set from the volatility of the window, exactly at the steps
  that append a mid-price and leave at least 21 values in the series. With 20 or fewer
  values no volatility is computed, the spread stays as it was and no quote is produced.
\<close>

theorem volatility_threshold:
  assumes "on_depth_update d mm = Inr (mm', q)"
  shows "(q \<noteq> None \<longleftrightarrow>
            length (mid_prices mm') = Suc (length (mid_prices mm)) \<and> 21 \<le> length (mid_prices mm'))
       \<and> (q = None \<longrightarrow> spread mm' = spread mm)
       \<and> (q \<noteq> None \<longrightarrow>
            spread mm' = max MIN_SPREAD (min MAX_SPREAD (3 / 1000 * window_volatility (mid_prices mm'))))"
proof (cases "process_update d mm")
  case (Inl p)
  obtain e m where p: "p = (e, m)" by (cases p)
  with Inl have "m = mm" using process_update_raise_state by blast
  with Inl p assms show ?thesis
    by (cases e) (auto simp add: on_depth_update_def)
next
  case (Inr m)
  then have "mid_prices m = mid_prices mm \<and> spread m = spread mm"
    using process_update_keeps_series by blast
  with Inr assms show ?thesis
    by (auto simp add: on_depth_update_def Let_def update_spread_def
          split: list.splits bool.splits if_splits)
qed

theorem volatility_threshold_witness:
  "on_depth_update \<lparr>upd_U = 990, upd_u = 999, upd_b = [], upd_a = []\<rparr>
     \<lparr>spread = INITIAL_SPREAD, mid_prices = replicate 20 (201 / 2), bids = [(100, 1)],
      asks = [(101, 1)], last_update_id = Some 1001, first_processed = True\<rparr>
   = Inr (\<lparr>spread = 1 / 1000, mid_prices = replicate 20 (201 / 2) @ [201 / 2],
      bids = [(100, 1)], asks = [(101, 1)],
      last_update_id = Some 1001, first_processed = True\<rparr>,
      Some \<lparr>log_our_bid = 201 / 2 * (1 - 1 / 2000), log_our_ask = 201 / 2 * (1 + 1 / 2000),
            log_spread_percent = 1 / 10, log_best_bid = 100, log_best_ask = 101\<rparr>)
   \<and> 21 \<le> length (replicate 20 (201 / 2 :: real) @ [201 / 2])
   \<and> 1 / 1000 = max MIN_SPREAD (min MAX_SPREAD
         (3 / 1000 * window_volatility (replicate 20 (201 / 2) @ [201 / 2])))"
  using quote_example volatility_threshold [OF quote_example] by simp

text \<open>
  The twentieth observation: the last-20 window is full, and neither a volatility nor a
  quote is produced.
\<close>

theorem volatility_threshold_counterexample:
  "on_depth_update \<lparr>upd_U = 990, upd_u = 999, upd_b = [], upd_a = []\<rparr>
     \<lparr>spread = INITIAL_SPREAD, mid_prices = replicate 19 (201 / 2), bids = [(100, 1)],
      asks = [(101, 1)], last_update_id = Some 1001, first_processed = True\<rparr>
   = Inr (\<lparr>spread = INITIAL_SPREAD, mid_prices = replicate 19 (201 / 2) @ [201 / 2],
      bids = [(100, 1)], asks = [(101, 1)],
      last_update_id = Some 1001, first_processed = True\<rparr>, None)
   \<and> length (replicate 19 (201 / 2 :: real) @ [201 / 2]) = 20"
  by (simp add: on_depth_update_def process_update_def)

subsection \<open>The spread of an emitted quote\<close>

text \<open>
  Claim C10. A quote is emitted only in a step that has just set the spread to
  \<open>clamp(0.003 \<times> vol, 0.001, 0.01)\<close>, with \<open>vol\<close> the volatility of the window
  that ends with the mid-price just appended; the logged percentage and both quote
  prices use that spread, which lies between 0.001 and 0.01. The spread stored before
  the step (\<open>INITIAL_SPREAD\<close> at first) has no influence: with any other stored spread
  the step ends in the same object and the same quote, and a whole run logs the same
  quotes, all with a spread between 0.001 and 0.01.
\<close>

theorem emitted_quote_spread:
  "(handle_message msg mm = Inr (mm', Some q) \<longrightarrow>
      spread mm' = spec_clamp (0.003 * window_volatility (mid_prices mm')) 0.001 0.01
      \<and> 0.001 \<le> spread mm' \<and> spread mm' \<le> 0.01
      \<and> log_spread_percent q = spread mm' * 100
      \<and> log_our_bid q = quote_bid ((log_best_bid q + log_best_ask q) / 2) (spread mm')
      \<and> log_our_ask q = quote_ask ((log_best_bid q + log_best_ask q) / 2) (spread mm')
      \<and> handle_message msg (mm\<lparr>spread := s\<rparr>) = Inr (mm', Some q))
   \<and> snd (snd (handle_messages msgs (mm\<lparr>spread := s\<rparr>))) = snd (snd (handle_messages msgs mm))
   \<and> (\<forall>x \<in> set (snd (snd (handle_messages msgs mm))).
         0.001 \<le> log_spread_percent x / 100 \<and> log_spread_percent x / 100 \<le> 0.01)"
proof (intro conjI impI ballI)
  assume a: "handle_message msg mm = Inr (mm', Some q)"
  then obtain d where d: "msg = DepthUpdate d" "on_depth_update d mm = Inr (mm', Some q)"
    using handle_message_quote by blast
  note f = on_depth_update_quote [OF d(2)]
  from f show "spread mm' = spec_clamp (0.003 * window_volatility (mid_prices mm')) 0.001 0.01"
    using clamp_spec [of "3 / 1000 * window_volatility (mid_prices mm')"] by simp
  from f show "0.001 \<le> spread mm'" "spread mm' \<le> 0.01"
    using clamp_range [of "3 / 1000 * window_volatility (mid_prices mm')"] by simp_all
  from f show "log_spread_percent q = spread mm' * 100" by simp
  from f show "log_our_bid q = quote_bid ((log_best_bid q + log_best_ask q) / 2) (spread mm')" by simp
  from f show "log_our_ask q = quote_ask ((log_best_bid q + log_best_ask q) / 2) (spread mm')" by simp
  from a show "handle_message msg (mm\<lparr>spread := s\<rparr>) = Inr (mm', Some q)"
    by (simp add: handle_message_spread_irrelevant)
next
  show "snd (snd (handle_messages msgs (mm\<lparr>spread := s\<rparr>))) = snd (snd (handle_messages msgs mm))"
    by (rule handle_messages_spread_irrelevant)
next
  fix x assume "x \<in> set (snd (snd (handle_messages msgs mm)))"
  then have "1 / 10 \<le> log_spread_percent x \<and> log_spread_percent x \<le> 1"
    by (rule handle_messages_quotes_range)
  then show "0.001 \<le> log_spread_percent x / 100" "log_spread_percent x / 100 \<le> 0.01"
    by simp_all
qed

theorem emitted_quote_spread_witness:
  "handle_message (DepthUpdate \<lparr>upd_U = 990, upd_u = 999, upd_b = [], upd_a = []\<rparr>)
     \<lparr>spread = INITIAL_SPREAD, mid_prices = replicate 20 (201 / 2), bids = [(100, 1)],
      asks = [(101, 1)], last_update_id = Some 1001, first_processed = True\<rparr>
   = Inr (\<lparr>spread = 1 / 1000, mid_prices = replicate 20 (201 / 2) @ [201 / 2],
      bids = [(100, 1)], asks = [(101, 1)],
      last_update_id = Some 1001, first_processed = True\<rparr>,
      Some \<lparr>log_our_bid = 201 / 2 * (1 - 1 / 2000), log_our_ask = 201 / 2 * (1 + 1 / 2000),
            log_spread_percent = 1 / 10, log_best_bid = 100, log_best_ask = 101\<rparr>)
   \<and> handle_message (DepthUpdate \<lparr>upd_U = 990, upd_u = 999, upd_b = [], upd_a = []\<rparr>)
     \<lparr>spread = 5, mid_prices = replicate 20 (201 / 2), bids = [(100, 1)],
      asks = [(101, 1)], last_update_id = Some 1001, first_processed = True\<rparr>
   = Inr (\<lparr>spread = 1 / 1000, mid_prices = replicate 20 (201 / 2) @ [201 / 2],
      bids = [(100, 1)], asks = [(101, 1)],
      last_update_id = Some 1001, first_processed = True\<rparr>,
      Some \<lparr>log_our_bid = 201 / 2 * (1 - 1 / 2000), log_our_ask = 201 / 2 * (1 + 1 / 2000),
            log_spread_percent = 1 / 10, log_best_bid = 100, log_best_ask = 101\<rparr>)"
proof -
  have h: "handle_message (DepthUpdate \<lparr>upd_U = 990, upd_u = 999, upd_b = [], upd_a = []\<rparr>)
     \<lparr>spread = INITIAL_SPREAD, mid_prices = replicate 20 (201 / 2), bids = [(100, 1)],
      asks = [(101, 1)], last_update_id = Some 1001, first_processed = True\<rparr>
   = Inr (\<lparr>spread = 1 / 1000, mid_prices = replicate 20 (201 / 2) @ [201 / 2],
      bids = [(100, 1)], asks = [(101, 1)],
      last_update_id = Some 1001, first_processed = True\<rparr>,
      Some \<lparr>log_our_bid = 201 / 2 * (1 - 1 / 2000), log_our_ask = 201 / 2 * (1 + 1 / 2000),
            log_spread_percent = 1 / 10, log_best_bid = 100, log_best_ask = 101\<rparr>)"
    using quote_example by (simp add: handle_message_def)
  from h emitted_quote_spread
    [where msg = "DepthUpdate \<lparr>upd_U = 990, upd_u = 999, upd_b = [], upd_a = []\<rparr>"
       and mm = "\<lparr>spread = INITIAL_SPREAD, mid_prices = replicate 20 (201 / 2), bids = [(100, 1)],
      asks = [(101, 1)], last_update_id = Some 1001, first_processed = True\<rparr>"
       and mm' = "\<lparr>spread = 1 / 1000, mid_prices = replicate 20 (201 / 2) @ [201 / 2],
      bids = [(100, 1)], asks = [(101, 1)],
      last_update_id = Some 1001, first_processed = True\<rparr>"
       and q = "\<lparr>log_our_bid = 201 / 2 * (1 - 1 / 2000), log_our_ask = 201 / 2 * (1 + 1 / 2000),
            log_spread_percent = 1 / 10, log_best_bid = 100, log_best_ask = 101\<rparr>"
       and s = 5 and msgs = "[]"]
  show ?thesis by simp
qed

section \<open>The book\<close>

subsection \<open>One side under a list of changes\<close>

lemma set_existing_keys: "map fst (set_existing p q xs) = map fst xs"
  by (induction xs) auto

lemma set_existing_set: "x \<in> set (set_existing p q xs) \<Longrightarrow> x \<in> set xs \<or> x = (p, q)"
  by (induction xs) (auto split: if_splits)

lemma apply_level_distinct:
  "distinct (map fst xs) \<Longrightarrow> distinct (map fst (apply_level c xs))"
  by (auto simp add: apply_level_def Let_def set_existing_keys distinct_map_filter find_None_iff
        split: option.splits)

lemma apply_level_set:
  "x \<in> set (apply_level c xs) \<Longrightarrow> x \<in> set xs \<or> (x = c \<and> snd c \<noteq> 0)"
  by (auto simp add: apply_level_def Let_def split: option.splits if_splits
        dest: set_existing_set)

lemma fold_apply_level_distinct:
  "distinct (map fst xs) \<Longrightarrow> distinct (map fst (fold apply_level cs xs))"
  by (induction cs arbitrary: xs) (simp_all add: apply_level_distinct)

lemma fold_apply_level_set:
  "x \<in> set (fold apply_level cs xs) \<Longrightarrow> x \<in> set xs \<or> (x \<in> set cs \<and> snd x \<noteq> 0)"
proof (induction cs arbitrary: xs)
  case Nil
  then show ?case by simp
next
  case (Cons c cs)
  from Cons.prems have "x \<in> set (fold apply_level cs (apply_level c xs))" by simp
  then have "x \<in> set (apply_level c xs) \<or> (x \<in> set cs \<and> snd x \<noteq> 0)" by (rule Cons.IH)
  then show ?case using apply_level_set [of x c xs] by auto
qed

lemma distinct_keys_sort: "distinct (map fst (sort xs)) = distinct (map fst (xs :: level list))"
proof -
  have "mset (map fst (sort xs)) = mset (map fst xs)" by simp
  then show ?thesis by (rule mset_eq_imp_distinct_iff)
qed

lemma distinct_keys_sort_desc: "distinct (map fst (sort_desc xs)) = distinct (map fst xs)"
  by (simp add: sort_desc_def rev_map [symmetric] distinct_keys_sort)

lemma set_sort_desc: "set (sort_desc xs) = set xs"
  by (simp add: sort_desc_def)

lemma sorted_asks_sort: "sorted_wrt (\<lambda>x y. fst x \<le> fst y) (sort (xs :: level list))"
proof -
  have "sorted_wrt (\<le>) (sort xs)" using sorted_sort [of xs] by simp
  then show ?thesis
    by (rule sorted_wrt_mono_rel [rotated]) (auto simp add: less_eq_prod_def)
qed

lemma sorted_bids_sort_desc: "sorted_wrt (\<lambda>x y. fst y \<le> fst x) (sort_desc xs)"
  using sorted_asks_sort [of xs] by (simp add: sort_desc_def sorted_wrt_rev)

subsection \<open>Invariants of a run\<close>

lemma process_update_sides:
  assumes "process_update d mm = Inr m"
  shows "(bids m = bids mm \<and> asks m = asks mm)
       \<or> (bids m = sort_desc (fold apply_level (upd_b d) (bids mm))
          \<and> asks m = sort (fold apply_level (upd_a d) (asks mm)))"
  using assms
  by (auto simp add: process_update_def apply_changes_def split: option.splits if_splits)

lemma process_updates_invariant:
  assumes step: "\<And>d m m'. d \<in> set ds \<Longrightarrow> I m \<Longrightarrow> process_update d m = Inr m' \<Longrightarrow> I m'"
    and init: "I m0"
    and run: "process_updates ds m0 = Inr mm' \<or> process_updates ds m0 = Inl (e, mm')"
  shows "I mm'"
  using assms
proof (induction ds arbitrary: m0)
  case Nil
  then show ?case by simp
next
  case (Cons d ds)
  show ?case
  proof (cases "process_update d m0")
    case (Inl p)
    with Cons.prems(3) have "p = (e, mm')" by simp
    with Inl have "mm' = m0" using process_update_raise_state by blast
    with Cons.prems(2) show ?thesis by simp
  next
    case (Inr m1)
    have i1: "I m1" using Cons.prems(1) [of d m0 m1] Cons.prems(2) Inr by simp
    have r1: "process_updates ds m1 = Inr mm' \<or> process_updates ds m1 = Inl (e, mm')"
      using Cons.prems(3) Inr by simp
    show ?thesis
      by (rule Cons.IH [OF _ i1 r1]) (use Cons.prems(1) in auto)
  qed
qed

text \<open>
  Claim C4, as the code has it. After a snapshot and any sequence of updates (applied,
  ignored, or ending in a raise) each side is sorted by price, bids descending and asks
  ascending. The code validates nothing, so the rest holds as far as the input does: a
  side has no two levels of one price if the snapshot's side has none; it has no level of
  quantity 0 if the snapshot's side has none (an update never stores one); it has no
  level of negative quantity if neither the snapshot's side nor the updates' changes for
  that side have one.
\<close>

theorem book_invariants:
  assumes snap: "process_snapshot data mm = Inr m0"
    and run: "process_updates ds m0 = Inr mm' \<or> process_updates ds m0 = Inl (e, mm')"
  shows "sorted_wrt (\<lambda>x y. fst y \<le> fst x) (bids mm')
       \<and> sorted_wrt (\<lambda>x y. fst x \<le> fst y) (asks mm')
       \<and> (distinct (map fst (snap_bids data)) \<longrightarrow> distinct (map fst (bids mm')))
       \<and> (distinct (map fst (snap_asks data)) \<longrightarrow> distinct (map fst (asks mm')))
       \<and> ((\<forall>x \<in> set (snap_bids data). snd x \<noteq> 0) \<longrightarrow> (\<forall>x \<in> set (bids mm'). snd x \<noteq> 0))
       \<and> ((\<forall>x \<in> set (snap_asks data). snd x \<noteq> 0) \<longrightarrow> (\<forall>x \<in> set (asks mm'). snd x \<noteq> 0))
       \<and> ((\<forall>x \<in> set (snap_bids data). 0 \<le> snd x) \<and> (\<forall>d \<in> set ds. \<forall>x \<in> set (upd_b d). 0 \<le> snd x)
            \<longrightarrow> (\<forall>x \<in> set (bids mm'). 0 \<le> snd x))
       \<and> ((\<forall>x \<in> set (snap_asks data). 0 \<le> snd x) \<and> (\<forall>d \<in> set ds. \<forall>x \<in> set (upd_a d). 0 \<le> snd x)
            \<longrightarrow> (\<forall>x \<in> set (asks mm'). 0 \<le> snd x))"
proof -
  from snap have b0: "bids m0 = sort_desc (snap_bids data)"
    and a0: "asks m0 = sort (snap_asks data)"
    by (auto simp add: process_snapshot_def)
  have sorted_b: "sorted_wrt (\<lambda>x y. fst y \<le> fst x) (bids mm')"
    by (rule process_updates_invariant
          [where I = "\<lambda>m. sorted_wrt (\<lambda>x y. fst y \<le> fst x) (bids m)", OF _ _ run])
       (use process_update_sides sorted_bids_sort_desc b0 in fastforce)+
  have sorted_a: "sorted_wrt (\<lambda>x y. fst x \<le> fst y) (asks mm')"
    by (rule process_updates_invariant
          [where I = "\<lambda>m. sorted_wrt (\<lambda>x y. fst x \<le> fst y) (asks m)", OF _ _ run])
       (use process_update_sides sorted_asks_sort a0 in fastforce)+
  have dist_b: "distinct (map fst (bids mm'))" if "distinct (map fst (snap_bids data))"
    by (rule process_updates_invariant
          [where I = "\<lambda>m. distinct (map fst (bids m))", OF _ _ run])
       (use process_update_sides fold_apply_level_distinct distinct_keys_sort_desc b0 that
         in fastforce)+
  have dist_a: "distinct (map fst (asks mm'))" if "distinct (map fst (snap_asks data))"
    by (rule process_updates_invariant
          [where I = "\<lambda>m. distinct (map fst (asks m))", OF _ _ run])
       (use process_update_sides fold_apply_level_distinct distinct_keys_sort a0 that
         in fastforce)+
  have origin_b: "\<forall>x \<in> set (bids mm'). x \<in> set (snap_bids data)
                    \<or> (\<exists>d \<in> set ds. x \<in> set (upd_b d)) \<and> snd x \<noteq> 0"
  proof (rule process_updates_invariant
          [where I = "\<lambda>m. \<forall>x \<in> set (bids m). x \<in> set (snap_bids data)
                    \<or> (\<exists>d \<in> set ds. x \<in> set (upd_b d)) \<and> snd x \<noteq> 0", OF _ _ run])
    show "\<forall>x \<in> set (bids m0). x \<in> set (snap_bids data)
                    \<or> (\<exists>d \<in> set ds. x \<in> set (upd_b d)) \<and> snd x \<noteq> 0"
      by (simp add: b0 set_sort_desc)
  next
    fix d m m'
    assume d: "d \<in> set ds"
      and i: "\<forall>x \<in> set (bids m). x \<in> set (snap_bids data)
                    \<or> (\<exists>d \<in> set ds. x \<in> set (upd_b d)) \<and> snd x \<noteq> 0"
      and p: "process_update d m = Inr m'"
    show "\<forall>x \<in> set (bids m'). x \<in> set (snap_bids data)
                    \<or> (\<exists>d \<in> set ds. x \<in> set (upd_b d)) \<and> snd x \<noteq> 0"
    proof
      fix x assume x: "x \<in> set (bids m')"
      from process_update_sides [OF p] x
      have "x \<in> set (bids m) \<or> x \<in> set (fold apply_level (upd_b d) (bids m))"
        by (auto simp add: set_sort_desc)
      then have "x \<in> set (bids m) \<or> (x \<in> set (upd_b d) \<and> snd x \<noteq> 0)"
        using fold_apply_level_set by blast
      with i d show "x \<in> set (snap_bids data)
                    \<or> (\<exists>d \<in> set ds. x \<in> set (upd_b d)) \<and> snd x \<noteq> 0"
        by blast
    qed
  qed
  have origin_a: "\<forall>x \<in> set (asks mm'). x \<in> set (snap_asks data)
                    \<or> (\<exists>d \<in> set ds. x \<in> set (upd_a d)) \<and> snd x \<noteq> 0"
  proof (rule process_updates_invariant
          [where I = "\<lambda>m. \<forall>x \<in> set (asks m). x \<in> set (snap_asks data)
                    \<or> (\<exists>d \<in> set ds. x \<in> set (upd_a d)) \<and> snd x \<noteq> 0", OF _ _ run])
    show "\<forall>x \<in> set (asks m0). x \<in> set (snap_asks data)
                    \<or> (\<exists>d \<in> set ds. x \<in> set (upd_a d)) \<and> snd x \<noteq> 0"
      by (simp add: a0)
  next
    fix d m m'
    assume d: "d \<in> set ds"
      and i: "\<forall>x \<in> set (asks m). x \<in> set (snap_asks data)
                    \<or> (\<exists>d \<in> set ds. x \<in> set (upd_a d)) \<and> snd x \<noteq> 0"
      and p: "process_update d m = Inr m'"
    show "\<forall>x \<in> set (asks m'). x \<in> set (snap_asks data)
                    \<or> (\<exists>d \<in> set ds. x \<in> set (upd_a d)) \<and> snd x \<noteq> 0"
    proof
      fix x assume x: "x \<in> set (asks m')"
      from process_update_sides [OF p] x
      have "x \<in> set (asks m) \<or> x \<in> set (fold apply_level (upd_a d) (asks m))"
        by (auto simp add: set_sort)
      then have "x \<in> set (asks m) \<or> (x \<in> set (upd_a d) \<and> snd x \<noteq> 0)"
        using fold_apply_level_set by blast
      with i d show "x \<in> set (snap_asks data)
                    \<or> (\<exists>d \<in> set ds. x \<in> set (upd_a d)) \<and> snd x \<noteq> 0"
        by blast
    qed
  qed
  show ?thesis
    using sorted_b sorted_a dist_b dist_a origin_b origin_a by blast
qed

theorem book_invariants_witness:
  "process_snapshot \<lparr>snap_bids = [(99, 2), (100, 1)], snap_asks = [(102, 3), (101, 1)],
                     snap_lastUpdateId = 1000\<rparr> init
   = Inr \<lparr>spread = INITIAL_SPREAD, mid_prices = [], bids = [(100, 1), (99, 2)],
          asks = [(101, 1), (102, 3)], last_update_id = Some 1000, first_processed = False\<rparr>
   \<and> process_updates [\<lparr>upd_U = 1001, upd_u = 1001, upd_b = [(100, 0), (98, 4)],
                        upd_a = [(101, 5)]\<rparr>]
       \<lparr>spread = INITIAL_SPREAD, mid_prices = [], bids = [(100, 1), (99, 2)],
        asks = [(101, 1), (102, 3)], last_update_id = Some 1000, first_processed = False\<rparr>
   = Inr \<lparr>spread = INITIAL_SPREAD, mid_prices = [], bids = [(99, 2), (98, 4)],
          asks = [(101, 5), (102, 3)], last_update_id = Some 1001, first_processed = True\<rparr>
   \<and> distinct (map fst [(99, 2), (100, 1 :: real)] :: real list)
   \<and> list_all (\<lambda>x. snd x \<noteq> (0 :: real)) [(99, 2), (100, 1 :: real)]
   \<and> list_all (\<lambda>x. (0 :: real) \<le> snd x) [(99, 2), (100, 1 :: real)]
   \<and> list_all (\<lambda>x. (0 :: real) \<le> snd x) [(100, 0), (98, 4 :: real)]
   \<and> sorted_wrt (\<lambda>x y. fst y \<le> fst x) [(99, 2), (98, 4 :: real) :: level]
   \<and> distinct (map fst [(99, 2), (98, 4 :: real)] :: real list)
   \<and> list_all (\<lambda>x. snd x \<noteq> (0 :: real) \<and> (0 :: real) \<le> snd x) [(99, 2), (98, 4 :: real)]"
proof -
  have s: "process_snapshot \<lparr>snap_bids = [(99, 2), (100, 1)], snap_asks = [(102, 3), (101, 1)],
                     snap_lastUpdateId = 1000\<rparr> init
   = Inr \<lparr>spread = INITIAL_SPREAD, mid_prices = [], bids = [(100, 1), (99, 2)],
          asks = [(101, 1), (102, 3)], last_update_id = Some 1000, first_processed = False\<rparr>"
    by (simp add: process_snapshot_def init_def sort_desc_def)
  have r: "process_updates [\<lparr>upd_U = 1001, upd_u = 1001, upd_b = [(100, 0), (98, 4)],
                        upd_a = [(101, 5)]\<rparr>]
       \<lparr>spread = INITIAL_SPREAD, mid_prices = [], bids = [(100, 1), (99, 2)],
        asks = [(101, 1), (102, 3)], last_update_id = Some 1000, first_processed = False\<rparr>
   = Inr \<lparr>spread = INITIAL_SPREAD, mid_prices = [], bids = [(99, 2), (98, 4)],
          asks = [(101, 5), (102, 3)], last_update_id = Some 1001, first_processed = True\<rparr>"
    by (simp add: process_update_def apply_changes_def apply_level_def sort_desc_def)
  from book_invariants [OF s disjI1 [OF r]] s r show ?thesis by simp
qed

text \<open>
  A snapshot with the price 100 twice, once with quantity 0, and an update with a
  negative quantity: the bids end with a repeated price, a quantity 0 and a quantity
  below 0.
\<close>

theorem book_invariants_counterexample:
  "process_snapshot \<lparr>snap_bids = [(100, 0), (100, 2)], snap_asks = [(101, 1)],
                     snap_lastUpdateId = 1000\<rparr> init
   = Inr \<lparr>spread = INITIAL_SPREAD, mid_prices = [], bids = [(100, 2), (100, 0)],
          asks = [(101, 1)], last_update_id = Some 1000, first_processed = False\<rparr>
   \<and> process_updates [\<lparr>upd_U = 1001, upd_u = 1001, upd_b = [(99, - 5)], upd_a = []\<rparr>]
       \<lparr>spread = INITIAL_SPREAD, mid_prices = [], bids = [(100, 2), (100, 0)],
        asks = [(101, 1)], last_update_id = Some 1000, first_processed = False\<rparr>
   = Inr \<lparr>spread = INITIAL_SPREAD, mid_prices = [], bids = [(100, 2), (100, 0), (99, - 5)],
          asks = [(101, 1)], last_update_id = Some 1001, first_processed = True\<rparr>"
  by (simp add: process_snapshot_def init_def process_update_def apply_changes_def
        apply_level_def sort_desc_def)

subsection \<open>Independence of the batching\<close>

lemma map_of_remove_price:
  "map_of (filter (\<lambda>x. fst x \<noteq> p) xs) = (map_of xs)(p := None)"
  by (induction xs) (auto simp add: fun_eq_iff)

lemma map_of_set_existing:
  "\<exists>x \<in> set xs. fst x = p \<Longrightarrow> map_of (set_existing p q xs) = (map_of xs)(p \<mapsto> q)"
proof (induction xs)
  case Nil
  then show ?case by simp
next
  case (Cons y ys)
  show ?case
  proof (cases "fst y = p")
    case True
    then show ?thesis by (cases y) (auto simp add: fun_eq_iff)
  next
    case False
    with Cons.prems have "\<exists>x \<in> set ys. fst x = p" by auto
    then have "map_of (set_existing p q ys) = (map_of ys)(p \<mapsto> q)" by (rule Cons.IH)
    with False show ?thesis by (cases y) (auto simp add: fun_eq_iff)
  qed
qed

lemma map_of_append_new:
  assumes "\<not> (\<exists>x \<in> set xs. fst x = p)"
  shows "map_of (xs @ [(p, q)]) = (map_of xs)(p \<mapsto> q)"
proof -
  from assms have "map_of xs p = None" by (force simp add: map_of_eq_None_iff)
  then show ?thesis by (auto simp add: fun_eq_iff map_add_def split: option.splits)
qed

lemma map_of_apply_level:
  "map_of (apply_level c xs) =
     (if snd c = 0 then (map_of xs)(fst c := None) else (map_of xs)(fst c \<mapsto> snd c))"
proof (cases "snd c = 0")
  case True
  then show ?thesis by (simp add: apply_level_def map_of_remove_price)
next
  case False
  show ?thesis
  proof (cases "find (\<lambda>x. fst x = fst c) xs")
    case None
    then have "\<not> (\<exists>x \<in> set xs. fst x = fst c)" by (auto simp add: find_None_iff)
    then have "map_of (xs @ [(fst c, snd c)]) = (map_of xs)(fst c \<mapsto> snd c)"
      by (rule map_of_append_new)
    moreover from None False have "apply_level c xs = xs @ [(fst c, snd c)]"
      by (simp add: apply_level_def)
    ultimately show ?thesis using False by (simp del: map_of_append)
  next
    case (Some y)
    then have "\<exists>x \<in> set xs. fst x = fst c" by (auto simp add: find_Some_iff)
    with Some False show ?thesis by (simp add: apply_level_def map_of_set_existing)
  qed
qed

lemma map_of_fold_apply_level:
  "map_of xs = map_of ys \<Longrightarrow> map_of (fold apply_level cs xs) = map_of (fold apply_level cs ys)"
  by (induction cs arbitrary: xs ys) (simp_all add: map_of_apply_level)

lemma fold_apply_level_cong:
  assumes "distinct (map fst xs)" and "distinct (map fst ys)" and "set xs = set ys"
  shows "set (fold apply_level cs xs) = set (fold apply_level cs ys)"
proof -
  from assms have "map_of xs = map_of ys" by (simp add: map_of_inject_set)
  then have "map_of (fold apply_level cs xs) = map_of (fold apply_level cs ys)"
    by (rule map_of_fold_apply_level)
  moreover have "distinct (map fst (fold apply_level cs xs))"
    and "distinct (map fst (fold apply_level cs ys))"
    using assms by (simp_all add: fold_apply_level_distinct)
  ultimately show ?thesis by (simp add: map_of_inject_set)
qed

lemma sort_cong:
  assumes "distinct (map fst xs)" and "distinct (map fst ys)" and "set xs = set (ys :: level list)"
  shows "sort xs = sort ys"
proof -
  from assms have "distinct xs" and "distinct ys" by (simp_all add: distinct_map)
  with assms(3) show ?thesis
    by (intro sorted_distinct_set_unique) simp_all
qed

lemma sort_desc_cong:
  assumes "distinct (map fst xs)" and "distinct (map fst ys)" and "set xs = set ys"
  shows "sort_desc xs = sort_desc ys"
  using sort_cong [OF assms] by (simp add: sort_desc_def)

lemma sort_sort_desc: "sort (sort_desc xs) = sort xs"
  by (simp add: sort_desc_def properties_for_sort)

lemma process_update_in_order:
  assumes "last_update_id mm = Some l" and "upd_U d \<le> l + 1" and "l + 1 \<le> upd_u d"
  shows "\<exists>m. process_update d mm = Inr m
           \<and> bids m = sort_desc (fold apply_level (upd_b d) (bids mm))
           \<and> asks m = sort (fold apply_level (upd_a d) (asks mm))
           \<and> last_update_id m = Some (upd_u d)"
  using assms by (simp add: process_update_def apply_changes_def)

lemma in_order_run:
  assumes "last_update_id mm = Some l" and "in_order ds l"
    and "distinct (map fst (bids mm))" and "distinct (map fst (asks mm))"
  shows "\<exists>mm'. process_updates ds mm = Inr mm'
           \<and> distinct (map fst (bids mm')) \<and> distinct (map fst (asks mm'))
           \<and> set (bids mm') = set (fold apply_level (concat (map upd_b ds)) (bids mm))
           \<and> set (asks mm') = set (fold apply_level (concat (map upd_a ds)) (asks mm))
           \<and> (ds \<noteq> [] \<longrightarrow> bids mm' = sort_desc (bids mm') \<and> asks mm' = sort (asks mm'))"
  using assms
proof (induction ds arbitrary: mm l)
  case Nil
  then show ?case by simp
next
  case (Cons d ds)
  from Cons.prems(2) have io: "upd_U d \<le> l + 1" "l + 1 \<le> upd_u d" "in_order ds (upd_u d)"
    by simp_all
  from process_update_in_order [OF Cons.prems(1) io(1,2)]
  obtain m where m: "process_update d mm = Inr m"
    and bm: "bids m = sort_desc (fold apply_level (upd_b d) (bids mm))"
    and am: "asks m = sort (fold apply_level (upd_a d) (asks mm))"
    and lm: "last_update_id m = Some (upd_u d)"
    by blast
  have db: "distinct (map fst (fold apply_level (upd_b d) (bids mm)))"
    and da: "distinct (map fst (fold apply_level (upd_a d) (asks mm)))"
    using Cons.prems(3,4) by (simp_all add: fold_apply_level_distinct)
  have dbm: "distinct (map fst (bids m))" and dam: "distinct (map fst (asks m))"
    using db da by (simp_all add: bm am distinct_keys_sort_desc distinct_keys_sort)
  from Cons.IH [OF lm io(3) dbm dam]
  obtain mm' where r: "process_updates ds m = Inr mm'"
    and d': "distinct (map fst (bids mm'))" "distinct (map fst (asks mm'))"
    and sb: "set (bids mm') = set (fold apply_level (concat (map upd_b ds)) (bids m))"
    and sa: "set (asks mm') = set (fold apply_level (concat (map upd_a ds)) (asks m))"
    and srt: "ds \<noteq> [] \<longrightarrow> bids mm' = sort_desc (bids mm') \<and> asks mm' = sort (asks mm')"
    by blast
  have "set (fold apply_level (concat (map upd_b ds)) (bids m))
        = set (fold apply_level (concat (map upd_b ds)) (fold apply_level (upd_b d) (bids mm)))"
    by (rule fold_apply_level_cong [OF dbm db]) (simp add: bm set_sort_desc)
  with sb have sb': "set (bids mm') = set (fold apply_level (concat (map upd_b (d # ds))) (bids mm))"
    by simp
  have "set (fold apply_level (concat (map upd_a ds)) (asks m))
        = set (fold apply_level (concat (map upd_a ds)) (fold apply_level (upd_a d) (asks mm)))"
    by (rule fold_apply_level_cong [OF dam da]) (simp add: am)
  with sa have sa': "set (asks mm') = set (fold apply_level (concat (map upd_a (d # ds))) (asks mm))"
    by simp
  have srt': "bids mm' = sort_desc (bids mm') \<and> asks mm' = sort (asks mm')"
  proof (cases "ds = []")
    case True
    with r have "mm' = m" by simp
    then show ?thesis
      by (simp add: bm am sort_desc_def properties_for_sort)
  next
    case False
    with srt show ?thesis by simp
  qed
  from m r have "process_updates (d # ds) mm = Inr mm'" by simp
  with d' sb' sa' srt' show ?case by blast
qed

text \<open>
  Claim C3, amended. From a book whose sides have no two levels of one price, a run of
  updates that are all in order returns normally, and its bids and asks are those of one
  \<open>apply_changes\<close> with the concatenated change lists: the same levels in every
  case, and the same lists as soon as the run has one update (an empty run leaves the
  lists as they are, one batch sorts them).
\<close>

theorem batching_independent:
  assumes "last_update_id mm = Some l" and "in_order ds l"
    and "distinct (map fst (bids mm))" and "distinct (map fst (asks mm))"
  shows "\<exists>mm'. process_updates ds mm = Inr mm'
           \<and> set (bids mm') = set (bids (apply_changes
                 \<lparr>upd_U = Ubatch, upd_u = ubatch, upd_b = concat (map upd_b ds), upd_a = concat (map upd_a ds)\<rparr> mm))
           \<and> set (asks mm') = set (asks (apply_changes
                 \<lparr>upd_U = Ubatch, upd_u = ubatch, upd_b = concat (map upd_b ds), upd_a = concat (map upd_a ds)\<rparr> mm))
           \<and> (ds \<noteq> [] \<longrightarrow>
                bids mm' = bids (apply_changes
                 \<lparr>upd_U = Ubatch, upd_u = ubatch, upd_b = concat (map upd_b ds), upd_a = concat (map upd_a ds)\<rparr> mm)
              \<and> asks mm' = asks (apply_changes
                 \<lparr>upd_U = Ubatch, upd_u = ubatch, upd_b = concat (map upd_b ds), upd_a = concat (map upd_a ds)\<rparr> mm))"
proof -
  from in_order_run [OF assms]
  obtain mm' where r: "process_updates ds mm = Inr mm'"
    and d': "distinct (map fst (bids mm'))" "distinct (map fst (asks mm'))"
    and sb: "set (bids mm') = set (fold apply_level (concat (map upd_b ds)) (bids mm))"
    and sa: "set (asks mm') = set (fold apply_level (concat (map upd_a ds)) (asks mm))"
    and srt: "ds \<noteq> [] \<longrightarrow> bids mm' = sort_desc (bids mm') \<and> asks mm' = sort (asks mm')"
    by blast
  have db: "distinct (map fst (fold apply_level (concat (map upd_b ds)) (bids mm)))"
    and da: "distinct (map fst (fold apply_level (concat (map upd_a ds)) (asks mm)))"
    using assms(3,4) by (simp_all add: fold_apply_level_distinct)
  have eb: "sort_desc (bids mm') = sort_desc (fold apply_level (concat (map upd_b ds)) (bids mm))"
    by (rule sort_desc_cong [OF d'(1) db sb])
  have ea: "sort (asks mm') = sort (fold apply_level (concat (map upd_a ds)) (asks mm))"
    by (rule sort_cong [OF d'(2) da sa])
  from r sb sa srt eb ea show ?thesis
    by (auto simp add: apply_changes_def set_sort_desc)
qed

theorem batching_independent_witness:
  "in_order [\<lparr>upd_U = 1001, upd_u = 1001, upd_b = [(100, 1 / 2)], upd_a = [(102, 1)]\<rparr>,
             \<lparr>upd_U = 1002, upd_u = 1003, upd_b = [(100, 0), (99, 7)], upd_a = [(101, 3)]\<rparr>] 1000
   \<and> (\<exists>mm'. process_updates
         [\<lparr>upd_U = 1001, upd_u = 1001, upd_b = [(100, 1 / 2)], upd_a = [(102, 1)]\<rparr>,
          \<lparr>upd_U = 1002, upd_u = 1003, upd_b = [(100, 0), (99, 7)], upd_a = [(101, 3)]\<rparr>]
         \<lparr>spread = INITIAL_SPREAD, mid_prices = [], bids = [(100, 2)],
          asks = [(101, 1)], last_update_id = Some 1000, first_processed = False\<rparr> = Inr mm'
       \<and> bids mm' = [(99, 7)] \<and> asks mm' = [(101, 3), (102, 1)])"
proof -
  have io: "in_order [\<lparr>upd_U = 1001, upd_u = 1001, upd_b = [(100, 1 / 2)], upd_a = [(102, 1)]\<rparr>,
             \<lparr>upd_U = 1002, upd_u = 1003, upd_b = [(100, 0), (99, 7)], upd_a = [(101, 3)]\<rparr>] 1000"
    by simp
  from io batching_independent
    [where mm = "\<lparr>spread = INITIAL_SPREAD, mid_prices = [], bids = [(100, 2)],
          asks = [(101, 1)], last_update_id = Some 1000, first_processed = False\<rparr>"
       and l = 1000 and Ubatch = 1001 and ubatch = 1003
       and ds = "[\<lparr>upd_U = 1001, upd_u = 1001, upd_b = [(100, 1 / 2)], upd_a = [(102, 1)]\<rparr>,
             \<lparr>upd_U = 1002, upd_u = 1003, upd_b = [(100, 0), (99, 7)], upd_a = [(101, 3)]\<rparr>]"]
  show ?thesis
    by (auto simp add: apply_changes_def apply_level_def sort_desc_def
          simp del: process_updates.simps)
qed

text \<open>
  With the price 100 twice in the bids (as \<open>process_snapshot\<close> leaves them when the
  snapshot has it twice), the changes \<open>(100, 1/2)\<close> and \<open>(100, 7)\<close> in two updates
  end in other bids than in one batch: the sort between the updates changes which of
  the two levels is found first.
\<close>

theorem batching_independent_counterexample:
  "in_order [\<lparr>upd_U = 1001, upd_u = 1001, upd_b = [(100, 1 / 2)], upd_a = []\<rparr>,
             \<lparr>upd_U = 1002, upd_u = 1002, upd_b = [(100, 7)], upd_a = []\<rparr>] 1000
   \<and> process_updates [\<lparr>upd_U = 1001, upd_u = 1001, upd_b = [(100, 1 / 2)], upd_a = []\<rparr>,
                      \<lparr>upd_U = 1002, upd_u = 1002, upd_b = [(100, 7)], upd_a = []\<rparr>]
       \<lparr>spread = INITIAL_SPREAD, mid_prices = [], bids = [(100, 2), (100, 1)],
        asks = [(101, 1)], last_update_id = Some 1000, first_processed = False\<rparr>
   = Inr \<lparr>spread = INITIAL_SPREAD, mid_prices = [], bids = [(100, 7), (100, 1 / 2)],
          asks = [(101, 1)], last_update_id = Some 1002, first_processed = True\<rparr>
   \<and> bids (apply_changes
        \<lparr>upd_U = 1001, upd_u = 1002, upd_b = [(100, 1 / 2), (100, 7)], upd_a = []\<rparr>
        \<lparr>spread = INITIAL_SPREAD, mid_prices = [], bids = [(100, 2), (100, 1)],
         asks = [(101, 1)], last_update_id = Some 1000, first_processed = False\<rparr>)
   = [(100, 7), (100, 1)]"
  by (simp add: process_update_def apply_changes_def apply_level_def sort_desc_def)

subsection \<open>The first update\<close>

text \<open>
  What applying a list of changes does to a side, against the specification's mapping
  from price to quantity: on a side with no price twice, the side after the changes
  represents the mapping obtained by \<open>spec_change\<close> for each change in order; on any
  side, the levels at prices the list does not mention are exactly kept.
\<close>

lemma map_of_fold_spec_change:
  "map_of (fold apply_level cs xs) = fold spec_change cs (map_of xs)"
  by (induction cs arbitrary: xs) (simp_all add: map_of_apply_level spec_change_def)

lemma map_of_sort_keys:
  assumes "distinct (map fst (xs :: level list))"
  shows "map_of (sort xs) = map_of xs" and "map_of (sort_desc xs) = map_of xs"
proof -
  from assms have "distinct (map fst (sort xs))" and "distinct (map fst (sort_desc xs))"
    by (simp_all add: distinct_keys_sort distinct_keys_sort_desc)
  with assms show "map_of (sort xs) = map_of xs" and "map_of (sort_desc xs) = map_of xs"
    by (simp_all add: map_of_inject_set set_sort_desc)
qed

lemma set_existing_other:
  "fst x \<noteq> p \<Longrightarrow> x \<in> set (set_existing p q xs) \<longleftrightarrow> x \<in> set xs"
  by (induction xs) auto

lemma apply_level_other:
  "fst x \<noteq> fst c \<Longrightarrow> x \<in> set (apply_level c xs) \<longleftrightarrow> x \<in> set xs"
  by (auto simp add: apply_level_def Let_def set_existing_other split: option.splits)

lemma fold_apply_level_other:
  "fst x \<notin> fst ` set cs \<Longrightarrow> x \<in> set (fold apply_level cs xs) \<longleftrightarrow> x \<in> set xs"
  by (induction cs arbitrary: xs) (simp_all add: apply_level_other)

text \<open>
  Claim C2. While the first update is awaited (\<open>first_processed\<close> unset,
  \<open>last_update_id = l\<close>): an update with \<open>U \<le> l + 1 \<le> u\<close> is applied,
  \<open>last_update_id\<close> becomes \<open>u\<close> and \<open>first_processed\<close> is set; any other update
  returns normally and leaves the object unchanged. So the call never raises, and the
  state is synced afterwards if and only if \<open>U \<le> l + 1 \<le> u\<close>. Applied means: both
  sides end sorted (bids descending, asks ascending); the levels at prices the update
  does not mention are exactly those of before; and a side with no price twice ends
  with no price twice and represents the mapping in which each change, in listed order,
  has removed its price (quantity 0) or set the quantity at its price. The spread and
  the mid-price series are untouched.
\<close>

theorem process_update_first:
  assumes "\<not> first_processed mm" and "last_update_id mm = Some l"
  shows "(upd_U d \<le> l + 1 \<and> l + 1 \<le> upd_u d \<longrightarrow>
            process_update d mm =
              Inr ((apply_changes d mm)\<lparr>last_update_id := Some (upd_u d),
                                        first_processed := True\<rparr>))
       \<and> (\<not> (upd_U d \<le> l + 1 \<and> l + 1 \<le> upd_u d) \<longrightarrow> process_update d mm = Inr mm)
       \<and> (\<exists>mm'. process_update d mm = Inr mm'
              \<and> (first_processed mm' \<longleftrightarrow> upd_U d \<le> l + 1 \<and> l + 1 \<le> upd_u d))
       \<and> (upd_U d \<le> l + 1 \<and> l + 1 \<le> upd_u d \<longrightarrow>
            (\<exists>mm'. process_update d mm = Inr mm'
               \<and> last_update_id mm' = Some (upd_u d) \<and> first_processed mm'
               \<and> spread mm' = spread mm \<and> mid_prices mm' = mid_prices mm
               \<and> sorted_wrt (\<lambda>x y. fst y \<le> fst x) (bids mm')
               \<and> sorted_wrt (\<lambda>x y. fst x \<le> fst y) (asks mm')
               \<and> (\<forall>x. fst x \<notin> fst ` set (upd_b d) \<longrightarrow>
                     (x \<in> set (bids mm') \<longleftrightarrow> x \<in> set (bids mm)))
               \<and> (\<forall>x. fst x \<notin> fst ` set (upd_a d) \<longrightarrow>
                     (x \<in> set (asks mm') \<longleftrightarrow> x \<in> set (asks mm)))
               \<and> (distinct (map fst (bids mm)) \<longrightarrow>
                     distinct (map fst (bids mm'))
                     \<and> map_of (bids mm') = fold spec_change (upd_b d) (map_of (bids mm)))
               \<and> (distinct (map fst (asks mm)) \<longrightarrow>
                     distinct (map fst (asks mm'))
                     \<and> map_of (asks mm') = fold spec_change (upd_a d) (map_of (asks mm)))))"
proof (intro conjI impI)
  assume a: "upd_U d \<le> l + 1 \<and> l + 1 \<le> upd_u d"
  with assms show "process_update d mm =
      Inr ((apply_changes d mm)\<lparr>last_update_id := Some (upd_u d), first_processed := True\<rparr>)"
    by (simp add: process_update_def apply_changes_def)
next
  assume "\<not> (upd_U d \<le> l + 1 \<and> l + 1 \<le> upd_u d)"
  with assms show "process_update d mm = Inr mm"
    by (auto simp add: process_update_def)
next
  from assms show "\<exists>mm'. process_update d mm = Inr mm'
              \<and> (first_processed mm' \<longleftrightarrow> upd_U d \<le> l + 1 \<and> l + 1 \<le> upd_u d)"
    by (auto simp add: process_update_def apply_changes_def)
next
  assume a: "upd_U d \<le> l + 1 \<and> l + 1 \<le> upd_u d"
  define m' where "m' = (apply_changes d mm)\<lparr>last_update_id := Some (upd_u d),
                                              first_processed := True\<rparr>"
  from a assms have r: "process_update d mm = Inr m'"
    by (simp add: process_update_def apply_changes_def m'_def)
  have b: "bids m' = sort_desc (fold apply_level (upd_b d) (bids mm))"
    and s: "asks m' = sort (fold apply_level (upd_a d) (asks mm))"
    by (simp_all add: m'_def apply_changes_def)
  have f: "last_update_id m' = Some (upd_u d)" "first_processed m'"
    "spread m' = spread mm" "mid_prices m' = mid_prices mm"
    by (simp_all add: m'_def apply_changes_def)
  have sb: "sorted_wrt (\<lambda>x y. fst y \<le> fst x) (bids m')"
    by (simp add: b sorted_bids_sort_desc)
  have sa: "sorted_wrt (\<lambda>x y. fst x \<le> fst y) (asks m')"
    by (simp add: s sorted_asks_sort)
  have ob: "\<forall>x. fst x \<notin> fst ` set (upd_b d) \<longrightarrow> (x \<in> set (bids m') \<longleftrightarrow> x \<in> set (bids mm))"
    by (simp add: b set_sort_desc fold_apply_level_other)
  have oa: "\<forall>x. fst x \<notin> fst ` set (upd_a d) \<longrightarrow> (x \<in> set (asks m') \<longleftrightarrow> x \<in> set (asks mm))"
    by (simp add: s fold_apply_level_other)
  have db: "distinct (map fst (bids m'))
            \<and> map_of (bids m') = fold spec_change (upd_b d) (map_of (bids mm))"
    if "distinct (map fst (bids mm))"
  proof -
    from that have "distinct (map fst (fold apply_level (upd_b d) (bids mm)))"
      by (rule fold_apply_level_distinct)
    then show ?thesis
      by (simp add: b distinct_keys_sort_desc map_of_sort_keys map_of_fold_spec_change)
  qed
  have da: "distinct (map fst (asks m'))
            \<and> map_of (asks m') = fold spec_change (upd_a d) (map_of (asks mm))"
    if "distinct (map fst (asks mm))"
  proof -
    from that have "distinct (map fst (fold apply_level (upd_a d) (asks mm)))"
      by (rule fold_apply_level_distinct)
    then show ?thesis
      by (simp add: s distinct_keys_sort map_of_sort_keys map_of_fold_spec_change)
  qed
  from r f sb sa ob oa db da
  show "\<exists>mm'. process_update d mm = Inr mm'
               \<and> last_update_id mm' = Some (upd_u d) \<and> first_processed mm'
               \<and> spread mm' = spread mm \<and> mid_prices mm' = mid_prices mm
               \<and> sorted_wrt (\<lambda>x y. fst y \<le> fst x) (bids mm')
               \<and> sorted_wrt (\<lambda>x y. fst x \<le> fst y) (asks mm')
               \<and> (\<forall>x. fst x \<notin> fst ` set (upd_b d) \<longrightarrow>
                     (x \<in> set (bids mm') \<longleftrightarrow> x \<in> set (bids mm)))
               \<and> (\<forall>x. fst x \<notin> fst ` set (upd_a d) \<longrightarrow>
                     (x \<in> set (asks mm') \<longleftrightarrow> x \<in> set (asks mm)))
               \<and> (distinct (map fst (bids mm)) \<longrightarrow>
                     distinct (map fst (bids mm'))
                     \<and> map_of (bids mm') = fold spec_change (upd_b d) (map_of (bids mm)))
               \<and> (distinct (map fst (asks mm)) \<longrightarrow>
                     distinct (map fst (asks mm'))
                     \<and> map_of (asks mm') = fold spec_change (upd_a d) (map_of (asks mm)))"
    by blast
qed

theorem process_update_first_witness:
  "process_update \<lparr>upd_U = 990, upd_u = 999, upd_b = [(99, 2)], upd_a = []\<rparr>
     \<lparr>spread = INITIAL_SPREAD, mid_prices = [], bids = [(100, 1), (99, 2)],
      asks = [(101, 1), (102, 3)], last_update_id = Some 1000, first_processed = False\<rparr>
   = Inr \<lparr>spread = INITIAL_SPREAD, mid_prices = [], bids = [(100, 1), (99, 2)],
      asks = [(101, 1), (102, 3)], last_update_id = Some 1000, first_processed = False\<rparr>
   \<and> process_update
     \<lparr>upd_U = 999, upd_u = 1001, upd_b = [(100, 0), (99, 5), (98, 4), (97, 0)],
      upd_a = [(101, 3), (103, 2), (102, 0)]\<rparr>
     \<lparr>spread = INITIAL_SPREAD, mid_prices = [], bids = [(100, 1), (99, 2)],
      asks = [(101, 1), (102, 3)], last_update_id = Some 1000, first_processed = False\<rparr>
   = Inr \<lparr>spread = INITIAL_SPREAD, mid_prices = [], bids = [(99, 5), (98, 4)],
      asks = [(101, 3), (103, 2)], last_update_id = Some 1001, first_processed = True\<rparr>
   \<and> distinct (map fst [(100, 1), (99, 2 :: real)] :: real list)
   \<and> distinct (map fst [(101, 1), (102, 3 :: real)] :: real list)
   \<and> map_of [(99, 5), (98, 4 :: real)]
       = fold spec_change [(100, 0), (99, 5), (98, 4), (97, 0)] (map_of [(100, 1), (99, 2 :: real)])
   \<and> map_of [(101, 3), (103, 2 :: real)]
       = fold spec_change [(101, 3), (103, 2), (102, 0)] (map_of [(101, 1), (102, 3 :: real)])"
proof -
  let ?mm = "\<lparr>spread = INITIAL_SPREAD, mid_prices = [], bids = [(100, 1), (99, 2)],
      asks = [(101, 1), (102, 3)], last_update_id = Some 1000, first_processed = False\<rparr>"
  let ?stale = "\<lparr>upd_U = 990, upd_u = 999, upd_b = [(99, 2)], upd_a = []\<rparr>"
  let ?d = "\<lparr>upd_U = 999, upd_u = 1001, upd_b = [(100, 0), (99, 5), (98, 4), (97, 0)],
      upd_a = [(101, 3), (103, 2), (102, 0)]\<rparr>"
  let ?mm' = "\<lparr>spread = INITIAL_SPREAD, mid_prices = [], bids = [(99, 5), (98, 4)],
      asks = [(101, 3), (103, 2)], last_update_id = Some 1001, first_processed = True\<rparr>"
  have np: "\<not> first_processed ?mm" and lu: "last_update_id ?mm = Some 1000"
    by simp_all
  have e: "apply_changes ?d ?mm = ?mm'\<lparr>last_update_id := Some 1000, first_processed := False\<rparr>"
    by (simp add: apply_changes_def apply_level_def sort_desc_def)
  have dropped: "process_update ?stale ?mm = Inr ?mm"
    using process_update_first [OF np lu, of ?stale] by simp
  have cond: "upd_U ?d \<le> 1000 + 1 \<and> 1000 + 1 \<le> upd_u ?d"
    by simp
  note acc = process_update_first [OF np lu, of ?d]
  from acc [THEN conjunct1, THEN mp, OF cond] e
  have accepted: "process_update ?d ?mm = Inr ?mm'"
    by simp
  from acc [THEN conjunct2, THEN conjunct2, THEN conjunct2, THEN mp, OF cond]
  obtain m where r: "process_update ?d ?mm = Inr m"
    and ib: "distinct (map fst (bids ?mm)) \<longrightarrow>
               distinct (map fst (bids m))
               \<and> map_of (bids m) = fold spec_change (upd_b ?d) (map_of (bids ?mm))"
    and ia: "distinct (map fst (asks ?mm)) \<longrightarrow>
               distinct (map fst (asks m))
               \<and> map_of (asks m) = fold spec_change (upd_a ?d) (map_of (asks ?mm))"
    by blast
  from r accepted have m: "m = ?mm'" by simp
  have db: "distinct (map fst (bids ?mm))" and da: "distinct (map fst (asks ?mm))"
    by simp_all
  from ib db have "map_of (bids m) = fold spec_change (upd_b ?d) (map_of (bids ?mm))"
    by blast
  then have mb: "map_of [(99, 5), (98, 4 :: real)]
       = fold spec_change [(100, 0), (99, 5), (98, 4), (97, 0)] (map_of [(100, 1), (99, 2 :: real)])"
    unfolding m by (simp only: market_maker.simps update.simps)
  from ia da have "map_of (asks m) = fold spec_change (upd_a ?d) (map_of (asks ?mm))"
    by blast
  then have ma: "map_of [(101, 3), (103, 2 :: real)]
       = fold spec_change [(101, 3), (103, 2), (102, 0)] (map_of [(101, 1), (102, 3 :: real)])"
    unfolding m by (simp only: market_maker.simps update.simps)
  have "distinct (map fst [(100, 1), (99, 2 :: real)] :: real list)"
    and "distinct (map fst [(101, 1), (102, 3 :: real)] :: real list)"
    by simp_all
  with dropped accepted mb ma show ?thesis
    by (intro conjI)
qed

end
